theory Spec2Isabelle
  imports Main "HOL-Library.Word" "HOL-Library.Sublist"
begin

section \<open>Data model of \<^verbatim>\<open>backend/app/rest/api/stream.go\<close>\<close>

text \<open>
  Payloads are Go byte slices; a \<^verbatim>\<open>nil\<close> slice is \<open>None\<close>. Go \<^verbatim>\<open>error\<close> values are
  either built by \<^verbatim>\<open>errors.New\<close>, built by \<^verbatim>\<open>errors.Wrap\<close> around a cause, or come
  from outside the engine (the check function, the output sink): \<open>Foreign\<close>.
\<close>

type_synonym bytes = "8 word list"

datatype error = errors_New string | errors_Wrap error string | Foreign string

text \<open>
  \<^verbatim>\<open>type Streamer struct\<close>. \<^verbatim>\<open>time.Duration\<close> values are nanosecond counts, kept as
  \<open>int\<close>; the two \<^verbatim>\<open>int32\<close> fields are 32-bit words, compared as signed values.
\<close>

record Streamer =
  TimeOut :: int
  Refresh :: int
  MaxActive :: "32 word"
  activeCount :: "32 word"

text \<open>
  \<^verbatim>\<open>type steamEventFn func() (data []byte, upd bool, err error)\<close> is a closure with
  hidden state: a transformer of that state, of type \<open>'f\<close>, returning the triple.
\<close>

type_synonym 'f steamEventFn = "'f \<Rightarrow> (bytes option \<times> bool \<times> error option) \<times> 'f"

record steamEventResp =
  data :: "bytes option"
  err :: "error option"

text \<open>
  The output sink \<^verbatim>\<open>w io.Writer\<close> with state \<open>'w\<close>: \<open>Write\<close> returns the error of
  \<^verbatim>\<open>w.Write\<close> and the new sink state; \<open>Flush\<close> is \<open>Some\<close> exactly when the sink
  passes the type assertion \<^verbatim>\<open>w.(http.Flusher)\<close>.
\<close>

record ('f, 'w) env =
  fn :: "'f steamEventFn"
  Write :: "'w \<Rightarrow> bytes option \<Rightarrow> error option \<times> 'w"
  Flush :: "('w \<Rightarrow> 'w) option"

section \<open>One stream: producer goroutine and consumer loop\<close>

text \<open>
  The producer goroutine of \<^verbatim>\<open>eventsCh\<close> is at one of these places:
  not yet scheduled (\<open>PInit\<close>), blocked in its \<^verbatim>\<open>select\<close> (\<open>PSelect\<close>), blocked on a
  send \<^verbatim>\<open>ch <- resp\<close> on the unbuffered channel (\<open>PSend resp fin\<close>, where \<open>fin\<close> says
  that the statement after the send is \<^verbatim>\<open>return\<close>), returned with the deferred
  \<^verbatim>\<open>close(ch)\<close> and \<^verbatim>\<open>tick.Stop()\<close> done (\<open>PClosed\<close>), or panicked in
  \<^verbatim>\<open>time.NewTicker\<close>, which panics on a non-positive period and takes the process
  down (\<open>PPanic\<close>).

  The caller of \<^verbatim>\<open>Activate\<close> is blocked in the \<^verbatim>\<open>select\<close> of the loop with the
  timer of \<^verbatim>\<open>time.After(s.TimeOut)\<close> due at the given instant (\<open>CSelect\<close>), has
  received the given record and is inside \<^verbatim>\<open>w.Write(resp.data)\<close> (\<open>CWrite\<close>), is
  inside \<^verbatim>\<open>fw.Flush()\<close> after a write that succeeded (\<open>CFlush\<close>), or has returned
  through one of the six \<^verbatim>\<open>return\<close> statements with the given value.
\<close>

datatype producer = PInit | PSelect | PSend steamEventResp bool | PClosed | PPanic

datatype exit = Rejected | CtxDone | TimedOut | ChanClosed | RespErr | WriteErr

datatype consumer = CSelect int | CWrite steamEventResp | CFlush | CReturned exit "error option"

datatype sinkOp = WriteOp "bytes option" "error option" | FlushOp

text \<open>
  The state of one \<^verbatim>\<open>Activate\<close> call and its environment. \<open>polled\<close>, \<open>sinkLog\<close>
  and \<open>sinkAt\<close> are history variables: the results of the check function in call
  order, the calls made on the sink in call order, and the instants at which these
  calls returned.
\<close>

record ('f, 'w) session =
  strm :: Streamer
  now :: int
  ctxDone :: bool
  producer :: producer
  tickC :: bool
  nextTick :: int
  fnState :: 'f
  polled :: "(bytes option \<times> bool \<times> error option) list"
  consumer :: consumer
  sink :: 'w
  sinkLog :: "sinkOp list"
  sinkAt :: "int list"

text \<open>
  The calls of \<^verbatim>\<open>log.Printf\<close> only write to the log and are left out. The calls
  \<^verbatim>\<open>w.Write\<close> and \<^verbatim>\<open>fw.Flush\<close> take time: each has its own event for its return,
  and anything else can happen while the caller is inside one of them. A tick, the
  call of the check function and the arrival at the send happen at one instant.

  What can happen next is chosen by the scheduler, the clock and the client:
  time passes, the context is cancelled, another \<^verbatim>\<open>Activate\<close> call adds to the shared
  counter, the producer goroutine starts or its \<^verbatim>\<open>select\<close> takes a case, the
  consumer's \<^verbatim>\<open>select\<close> takes a case, or the call the consumer is inside returns.
  An event that is not enabled in a state leaves the state as it is.
\<close>

datatype event =
    Elapse nat
  | Cancel
  | OtherEnter
  | OtherLeave
  | ProdStart
  | ProdCtxDone
  | ProdTick
  | ConsCtxDone
  | ConsTimeout
  | ConsRecv
  | ConsWritten
  | ConsFlushed

text \<open>\<^verbatim>\<open>atomic.AddInt32(&s.activeCount, delta)\<close>: the new value and the updated struct.\<close>

definition atomic_AddInt32 :: "Streamer \<Rightarrow> 32 word \<Rightarrow> 32 word \<times> Streamer" where
  "atomic_AddInt32 s delta = (activeCount s + delta, s\<lparr>activeCount := activeCount s + delta\<rparr>)"

text \<open>The test \<^verbatim>\<open>count > s.MaxActive\<close> on \<^verbatim>\<open>int32\<close> values.\<close>

definition tooMany :: "32 word \<Rightarrow> Streamer \<Rightarrow> bool" where
  "tooMany count s = (sint (MaxActive s) < sint count)"

text \<open>
  The ticker of period \<open>Refresh\<close>: its channel holds at most one tick (\<open>tickC\<close>), later
  ticks are dropped while it is full, and it is live while the goroutine runs.
\<close>

definition elapse :: "nat \<Rightarrow> ('f, 'w) session \<Rightarrow> ('f, 'w) session" where
  "elapse d st =
     (let t = now st + int d; live = (case producer st of PSelect \<Rightarrow> True | PSend r b \<Rightarrow> True | _ \<Rightarrow> False)
      in if live \<and> nextTick st \<le> t
         then st\<lparr>now := t, tickC := True,
                 nextTick := nextTick st + Refresh (strm st) * ((t - nextTick st) div Refresh (strm st) + 1)\<rparr>
         else st\<lparr>now := t\<rparr>)"

text \<open>The goroutine of \<^verbatim>\<open>eventsCh\<close>.\<close>

fun eventsCh :: "('f, 'w) env \<Rightarrow> event \<Rightarrow> ('f, 'w) session \<Rightarrow> ('f, 'w) session" where
  "eventsCh E ProdStart st =
     (if producer st = PInit
      then (if Refresh (strm st) \<le> 0 then st\<lparr>producer := PPanic\<rparr>
            else st\<lparr>producer := PSelect, tickC := False, nextTick := now st + Refresh (strm st)\<rparr>)
      else st)"
| "eventsCh E ProdCtxDone st =
     (if producer st = PSelect \<and> ctxDone st then st\<lparr>producer := PClosed\<rparr> else st)"
| "eventsCh E ProdTick st =
     (if producer st = PSelect \<and> tickC st
      then (case fn E (fnState st) of ((resp, upd, e), f') \<Rightarrow>
              (let st1 = st\<lparr>tickC := False, fnState := f', polled := polled st @ [(resp, upd, e)]\<rparr>
               in case e of
                    Some er \<Rightarrow>
                      st1\<lparr>producer :=
                            PSend \<lparr>data = None, err = Some (errors_Wrap er ''can't get stream data'')\<rparr> True\<rparr>
                  | None \<Rightarrow>
                      (if upd then st1\<lparr>producer := PSend \<lparr>data = resp, err = None\<rparr> False\<rparr> else st1)))
      else st)"
| "eventsCh E ev st = st"

text \<open>A \<^verbatim>\<open>return\<close> of \<^verbatim>\<open>Activate\<close>: the deferred \<^verbatim>\<open>atomic.AddInt32(&s.activeCount, -1)\<close> runs.\<close>

definition return :: "exit \<Rightarrow> error option \<Rightarrow> ('f, 'w) session \<Rightarrow> ('f, 'w) session" where
  "return x r st = st\<lparr>consumer := CReturned x r, strm := snd (atomic_AddInt32 (strm st) (- 1))\<rparr>"

text \<open>
  The \<^verbatim>\<open>for { select { ... } }\<close> loop of \<^verbatim>\<open>Activate\<close>. A receive takes the record
  from the goroutine, which goes on, and tests \<^verbatim>\<open>resp.err\<close>. When \<^verbatim>\<open>w.Write\<close>
  returns, its error ends the call; otherwise the sink is flushed if it is an
  \<^verbatim>\<open>http.Flusher\<close>. The loop then enters \<^verbatim>\<open>select\<close> again, and
  \<^verbatim>\<open>time.After(s.TimeOut)\<close> makes a new timer at that instant.
\<close>

fun loop :: "('f, 'w) env \<Rightarrow> event \<Rightarrow> ('f, 'w) session \<Rightarrow> ('f, 'w) session" where
  "loop E ConsCtxDone st =
     (case consumer st of
        CSelect d \<Rightarrow> (if ctxDone st then return CtxDone None st else st)
      | _ \<Rightarrow> st)"
| "loop E ConsTimeout st =
     (case consumer st of
        CSelect d \<Rightarrow> (if d \<le> now st then return TimedOut None st else st)
      | _ \<Rightarrow> st)"
| "loop E ConsRecv st =
     (case consumer st of
        CSelect d \<Rightarrow>
          (case producer st of
             PClosed \<Rightarrow> return ChanClosed None st
           | PSend resp fin \<Rightarrow>
               (let st1 = st\<lparr>producer := (if fin then PClosed else PSelect)\<rparr>
                in case err resp of
                     Some e \<Rightarrow> return RespErr (Some e) st1
                   | None \<Rightarrow> st1\<lparr>consumer := CWrite resp\<rparr>)
           | _ \<Rightarrow> st)
      | _ \<Rightarrow> st)"
| "loop E ConsWritten st =
     (case consumer st of
        CWrite resp \<Rightarrow>
          (case Write E (sink st) (data resp) of (we, w') \<Rightarrow>
             (let st1 = st\<lparr>sink := w', sinkLog := sinkLog st @ [WriteOp (data resp) we],
                          sinkAt := sinkAt st @ [now st]\<rparr>
              in case we of
                   Some e \<Rightarrow> return WriteErr (Some (errors_Wrap e ''send to stream failed'')) st1
                 | None \<Rightarrow>
                     (case Flush E of
                        Some fl \<Rightarrow> st1\<lparr>consumer := CFlush\<rparr>
                      | None \<Rightarrow> st1\<lparr>consumer := CSelect (now st1 + TimeOut (strm st1))\<rparr>)))
      | _ \<Rightarrow> st)"
| "loop E ConsFlushed st =
     (case consumer st of
        CFlush \<Rightarrow>
          (case Flush E of
             Some fl \<Rightarrow>
               st\<lparr>sink := fl (sink st), sinkLog := sinkLog st @ [FlushOp], sinkAt := sinkAt st @ [now st],
                  consumer := CSelect (now st + TimeOut (strm st))\<rparr>
           | None \<Rightarrow> st)
      | _ \<Rightarrow> st)"
| "loop E ev st = st"

text \<open>One event of the whole system. After a panic of the goroutine nothing runs.\<close>

definition step :: "('f, 'w) env \<Rightarrow> event \<Rightarrow> ('f, 'w) session \<Rightarrow> ('f, 'w) session" where
  "step E ev st =
     (if producer st = PPanic then st
      else case ev of
             Elapse d \<Rightarrow> elapse d st
           | Cancel \<Rightarrow> st\<lparr>ctxDone := True\<rparr>
           | OtherEnter \<Rightarrow> st\<lparr>strm := snd (atomic_AddInt32 (strm st) 1)\<rparr>
           | OtherLeave \<Rightarrow> st\<lparr>strm := snd (atomic_AddInt32 (strm st) (- 1))\<rparr>
           | ProdStart \<Rightarrow> eventsCh E ev st
           | ProdCtxDone \<Rightarrow> eventsCh E ev st
           | ProdTick \<Rightarrow> eventsCh E ev st
           | ConsCtxDone \<Rightarrow> loop E ev st
           | ConsTimeout \<Rightarrow> loop E ev st
           | ConsRecv \<Rightarrow> loop E ev st
           | ConsWritten \<Rightarrow> loop E ev st
           | ConsFlushed \<Rightarrow> loop E ev st)"

fun run :: "('f, 'w) env \<Rightarrow> event list \<Rightarrow> ('f, 'w) session \<Rightarrow> ('f, 'w) session" where
  "run E [] st = st"
| "run E (ev # evs) st = run E evs (step E ev st)"

text \<open>
  \<^verbatim>\<open>Activate\<close> up to its first \<^verbatim>\<open>select\<close>, called at time \<open>t0\<close> with the closure state
  \<open>f0\<close> that \<^verbatim>\<open>eventFn()\<close> made and the sink \<open>w\<close>: the goroutine is created, the
  counter is incremented, and the call is rejected or enters the loop.
\<close>

definition start :: "Streamer \<Rightarrow> 'f \<Rightarrow> 'w \<Rightarrow> int \<Rightarrow> ('f, 'w) session" where
  "start s f0 w t0 =
     (case atomic_AddInt32 s 1 of (count, s1) \<Rightarrow>
        (let st = \<lparr>strm = s1, now = t0, ctxDone = False, producer = PInit, tickC = False,
                   nextTick = t0, fnState = f0, polled = [], consumer = CSelect (t0 + TimeOut s1),
                   sink = w, sinkLog = [], sinkAt = []\<rparr>
         in if tooMany count s1
            then return Rejected (Some (errors_New ''too many streams'')) st
            else st))"

text \<open>\<^verbatim>\<open>Activate\<close> under a schedule of events.\<close>

definition Activate ::
  "('f, 'w) env \<Rightarrow> Streamer \<Rightarrow> 'f \<Rightarrow> 'w \<Rightarrow> int \<Rightarrow> event list \<Rightarrow> ('f, 'w) session" where
  "Activate E s f0 w t0 evs = run E evs (start s f0 w t0)"

text \<open>What \<^verbatim>\<open>Activate\<close> returned: \<open>None\<close> while the call is still in its loop.\<close>

definition retval :: "('f, 'w) session \<Rightarrow> error option option" where
  "retval st = (case consumer st of CReturned x r \<Rightarrow> Some r | _ \<Rightarrow> None)"


text \<open>The payloads the sink accepted, in order.\<close>

fun written :: "sinkOp list \<Rightarrow> bytes option list" where
  "written [] = []"
| "written (WriteOp p None # ops) = p # written ops"
| "written (op # ops) = written ops"

text \<open>The payloads passed to \<^verbatim>\<open>w.Write\<close>, accepted or not, in order.\<close>

fun attempted :: "sinkOp list \<Rightarrow> bytes option list" where
  "attempted [] = []"
| "attempted (WriteOp p e # ops) = p # attempted ops"
| "attempted (FlushOp # ops) = attempted ops"

text \<open>
  The payloads of the check-function results that reported a change and no error, in
  the order the check function produced them.
\<close>

fun changed :: "(bytes option \<times> bool \<times> error option) list \<Rightarrow> bytes option list" where
  "changed [] = []"
| "changed ((d, True, None) # rs) = d # changed rs"
| "changed (r # rs) = changed rs"

text \<open>The net effect on the counter of the other calls in a schedule.\<close>

fun others :: "event list \<Rightarrow> 32 word" where
  "others [] = 0"
| "others (OtherEnter # evs) = others evs + 1"
| "others (OtherLeave # evs) = others evs - 1"
| "others (ev # evs) = others evs"

section \<open>Many calls: admission\<close>


record pool =
  shared :: Streamer
  rejecting :: nat
  streaming :: nat
  rejections :: nat
  accepted :: nat



definition idle :: "Streamer \<Rightarrow> pool" where
  "idle s = \<lparr>shared = s, rejecting = 0, streaming = 0, rejections = 0, accepted = 0\<rparr>"

section \<open>Concrete check functions and sinks\<close>

text \<open>A check function that reports a change with the next counter value on every call.\<close>

definition fnCount :: "nat steamEventFn" where
  "fnCount n = ((Some [of_nat n], True, None), Suc n)"

text \<open>A check function that never reports a change.\<close>

definition fnQuiet :: "nat steamEventFn" where
  "fnQuiet n = ((None, False, None), Suc n)"

text \<open>A check function that fails on every call.\<close>

definition fnFail :: "nat steamEventFn" where
  "fnFail n = ((None, False, Some (Foreign ''boom'')), Suc n)"

text \<open>
  A sink that keeps what it is given, and one that rejects every write; \<open>counting\<close>
  is the first of the two behind an \<^verbatim>\<open>http.Flusher\<close>, fed by \<open>fnCount\<close>.
\<close>

definition bufWrite :: "bytes option list \<Rightarrow> bytes option \<Rightarrow> error option \<times> bytes option list" where
  "bufWrite w p = (None, w @ [p])"

definition brokenWrite :: "bytes option list \<Rightarrow> bytes option \<Rightarrow> error option \<times> bytes option list" where
  "brokenWrite w p = (Some (Foreign ''broken pipe''), w)"

definition counting :: "(nat, bytes option list) env" where
  "counting = \<lparr>fn = fnCount, Write = bufWrite, Flush = Some id\<rparr>"

text \<open>The same with a check function that fails, a sink that is broken, a check function that is quiet.\<close>

definition failing :: "(nat, bytes option list) env" where
  "failing = \<lparr>fn = fnFail, Write = bufWrite, Flush = Some id\<rparr>"

definition broken :: "(nat, bytes option list) env" where
  "broken = \<lparr>fn = fnCount, Write = brokenWrite, Flush = None\<rparr>"

definition silent :: "(nat, bytes option list) env" where
  "silent = \<lparr>fn = fnQuiet, Write = bufWrite, Flush = Some id\<rparr>"

text \<open>A \<^verbatim>\<open>Streamer\<close> as the program makes it: the counter is zero.\<close>

definition cfg :: "int \<Rightarrow> int \<Rightarrow> 32 word \<Rightarrow> Streamer" where
  "cfg timeout refresh maxActive =
     \<lparr>TimeOut = timeout, Refresh = refresh, MaxActive = maxActive, activeCount = 0\<rparr>"

text \<open>
  Three schedules. In \<open>first_poll\<close> the goroutine starts, its first tick comes and
  it calls the check function. In \<open>served\<close> the consumer receives a record, and its
  write and its flush return. In \<open>busy\<close> a record is produced and delivered at each
  of the instants 1, 2 and 3, and at instant 4 the consumer's timeout case is tried.
\<close>

definition first_poll :: "event list" where
  "first_poll = [ProdStart, Elapse 1, ProdTick]"

definition served :: "event list" where
  "served = [ConsRecv, ConsWritten, ConsFlushed]"

definition busy :: "event list" where
  "busy = ProdStart # Elapse 1 # ProdTick # served @ Elapse 1 # ProdTick # served
           @ Elapse 1 # ProdTick # served @ [Elapse 1, ConsTimeout]"

section \<open>Invariants\<close>



text \<open>What the call contributes to the counter: one while it is in its loop.\<close>

definition inflight :: "('f, 'w) session \<Rightarrow> 32 word" where
  "inflight st = (case consumer st of CReturned x r \<Rightarrow> 0 | _ \<Rightarrow> 1)"

text \<open>The payload the goroutine is blocked sending, if any.\<close>

definition pending :: "('f, 'w) session \<Rightarrow> bytes option list" where
  "pending st = (case producer st of PSend r fin \<Rightarrow> (if fin then [] else [data r]) | _ \<Rightarrow> [])"

text \<open>The payload the consumer has received and is writing, if any.\<close>

definition inhand :: "('f, 'w) session \<Rightarrow> bytes option list" where
  "inhand st = (case consumer st of CWrite r \<Rightarrow> [data r] | _ \<Rightarrow> [])"

text \<open>
  An error record carries no payload and is followed by the goroutine's return; the
  payloads given to the sink, with the one being written and the one in the channel,
  are the changes the check function reported; only the last write can have failed,
  and then the call returned.
\<close>

definition fifo :: "('f, 'w) session \<Rightarrow> bool" where
  "fifo st =
     ((case producer st of
         PSend r fin \<Rightarrow> (if fin then data r = None \<and> err r \<noteq> None else err r = None)
       | _ \<Rightarrow> True)
      \<and> attempted (sinkLog st) @ inhand st @ pending st = changed (polled st)
      \<and> (case consumer st of
            CReturned x r \<Rightarrow> prefix (written (sinkLog st)) (attempted (sinkLog st))
          | _ \<Rightarrow> written (sinkLog st) = attempted (sinkLog st)))"


text \<open>
  After an error record was made: the goroutine is blocked sending it, or the consumer
  took it and returned.
\<close>

definition waiting :: "steamEventResp \<Rightarrow> ('f, 'w) session \<Rightarrow> bool" where
  "waiting resp st =
     (producer st = PSend resp True
      \<or> (producer st = PClosed \<and> (case consumer st of CReturned x r \<Rightarrow> True | _ \<Rightarrow> False)))"

text \<open>The three graceful exits return \<^verbatim>\<open>nil\<close>.\<close>

definition graceful :: "('f, 'w) session \<Rightarrow> bool" where
  "graceful st =
     (case consumer st of
        CReturned x r \<Rightarrow> (x = CtxDone \<or> x = TimedOut \<or> x = ChanClosed \<longrightarrow> r = None)
      | _ \<Rightarrow> True)"

text \<open>
  A stream whose check function never reports anything: the goroutine never sends, the
  channel is closed only after a cancellation, the sink is untouched, the timer is
  the one armed at the start, due at \<open>D\<close>, and a return is one of the graceful ones.
\<close>

definition quiet :: "int \<Rightarrow> 'w \<Rightarrow> ('f, 'w) session \<Rightarrow> bool" where
  "quiet D w st =
     ((case producer st of PSend resp fin \<Rightarrow> False | PClosed \<Rightarrow> ctxDone st | _ \<Rightarrow> True)
      \<and> sinkLog st = [] \<and> sink st = w
      \<and> (case consumer st of
            CSelect d \<Rightarrow> d = D
          | CReturned x r \<Rightarrow>
              r = None \<and> ((x = TimedOut \<and> D \<le> now st) \<or> ((x = CtxDone \<or> x = ChanClosed) \<and> ctxDone st))
          | _ \<Rightarrow> False))"

section \<open>Admission: proofs\<close>















section \<open>One stream: proofs\<close>

lemma return_simps [simp]:
  "consumer (return x r st) = CReturned x r"
  "producer (return x r st) = producer st"
  "sinkLog (return x r st) = sinkLog st"
  "sinkAt (return x r st) = sinkAt st"
  "sink (return x r st) = sink st"
  "polled (return x r st) = polled st"
  "now (return x r st) = now st"
  "ctxDone (return x r st) = ctxDone st"
  "activeCount (strm (return x r st)) = activeCount (strm st) - 1"
  "TimeOut (strm (return x r st)) = TimeOut (strm st)"
  "Refresh (strm (return x r st)) = Refresh (strm st)"
  "MaxActive (strm (return x r st)) = MaxActive (strm st)"
  by (simp_all add: return_def atomic_AddInt32_def)

lemma step_panic: "producer st = PPanic \<Longrightarrow> step E ev st = st"
  by (simp add: step_def)

lemma run_panic: "producer st = PPanic \<Longrightarrow> run E evs st = st"
  by (induction evs arbitrary: st) (simp_all add: step_panic)

lemmas step_unfold = step_def elapse_def atomic_AddInt32_def Let_def
lemmas step_splits = consumer.splits producer.splits option.splits prod.splits if_splits

subsection \<open>The counter\<close>

lemma others_Cons: "others (ev # evs) = others [ev] + others evs"
  by (cases ev) simp_all

lemma step_count:
  "producer (step E ev st) \<noteq> PPanic \<Longrightarrow>
   activeCount (strm (step E ev st)) - inflight (step E ev st) = activeCount (strm st) - inflight st + others [ev]"
  by (cases ev) (auto simp: step_unfold inflight_def split: step_splits)

lemma run_count:
  "producer (run E evs st) \<noteq> PPanic \<Longrightarrow>
   activeCount (strm (run E evs st)) - inflight (run E evs st) = activeCount (strm st) - inflight st + others evs"
proof (induction evs arbitrary: st)
  case Nil
  show ?case by simp
next
  case (Cons ev evs)
  have alive: "producer (step E ev st) \<noteq> PPanic"
    using Cons.prems run_panic [of "step E ev st" E evs] by auto
  have "activeCount (strm (run E evs (step E ev st))) - inflight (run E evs (step E ev st))
        = activeCount (strm (step E ev st)) - inflight (step E ev st) + others evs"
    using Cons.prems by (intro Cons.IH) simp
  also have "\<dots> = activeCount (strm st) - inflight st + others [ev] + others evs"
    using step_count [OF alive] by simp
  finally show ?case using others_Cons [of ev evs] by (simp add: add.assoc)
qed

lemma tooMany_activeCount [simp]: "tooMany c (s\<lparr>activeCount := x\<rparr>) = tooMany c s"
  by (simp add: tooMany_def)

lemma start_count:
  "activeCount (strm (start s f0 w t0)) = activeCount s + inflight (start s f0 w t0)"
  by (simp add: start_def atomic_AddInt32_def inflight_def Let_def)

subsection \<open>After the return\<close>

lemma run_append: "run E (xs @ ys) st = run E ys (run E xs st)"
  by (induction xs arbitrary: st) simp_all

lemma step_returned:
  "consumer st = CReturned x r \<Longrightarrow>
   consumer (step E ev st) = CReturned x r \<and> sinkLog (step E ev st) = sinkLog st \<and> sink (step E ev st) = sink st"
  by (cases ev) (auto simp: step_unfold split: step_splits)

lemma run_returned:
  "consumer st = CReturned x r \<Longrightarrow>
   consumer (run E evs st) = CReturned x r \<and> sinkLog (run E evs st) = sinkLog st \<and> sink (run E evs st) = sink st"
proof (induction evs arbitrary: st)
  case Nil
  then show ?case by simp
next
  case (Cons ev evs)
  then show ?case using step_returned [of st x r E ev] by simp
qed

subsection \<open>Order of delivery\<close>

lemma written_append: "written (xs @ ys) = written xs @ written ys"
  by (induction xs rule: written.induct) simp_all

lemma attempted_append: "attempted (xs @ ys) = attempted xs @ attempted ys"
  by (induction xs rule: attempted.induct) simp_all

lemma changed_append: "changed (xs @ ys) = changed xs @ changed ys"
  by (induction xs rule: changed.induct) simp_all

lemma step_fifo: "fifo st \<Longrightarrow> fifo (step E ev st)"
proof (cases "producer st = PPanic")
  case True
  assume "fifo st"
  then show ?thesis using True by (simp add: step_panic)
next
  case False
  assume f: "fifo st"
  have frame: "fifo st'"
    if "producer st' = producer st" "consumer st' = consumer st" "sinkLog st' = sinkLog st"
      "polled st' = polled st" for st' :: "('a, 'b) session"
    using f that by (auto simp: fifo_def pending_def inhand_def split: consumer.splits)
  show ?thesis
  proof (cases ev)
    case (Elapse d)
    show ?thesis using False Elapse
      by (auto simp: step_def elapse_def Let_def intro!: frame)
  next
    case ProdStart
    show ?thesis using f False ProdStart
      by (cases "consumer st"; cases "producer st")
         (auto simp: step_def fifo_def pending_def inhand_def)
  next
    case ProdCtxDone
    show ?thesis using f False ProdCtxDone
      by (cases "consumer st"; cases "producer st")
         (auto simp: step_def fifo_def pending_def inhand_def)
  next
    case ProdTick
    show ?thesis using f False ProdTick
      by (cases "consumer st"; cases "producer st")
         (auto simp: step_def fifo_def pending_def inhand_def Let_def changed_append
               split: prod.splits option.splits)
  next
    case ConsRecv
    show ?thesis using f False ConsRecv
      by (cases "consumer st"; cases "producer st")
         (auto simp: step_def fifo_def pending_def inhand_def Let_def return_def atomic_AddInt32_def
               split: option.splits if_splits)
  next
    case ConsWritten
    show ?thesis using f False ConsWritten
      by (cases "consumer st"; cases "producer st")
         (auto simp: step_def fifo_def pending_def inhand_def Let_def return_def atomic_AddInt32_def
               written_append attempted_append
               intro: prefixI [OF sym] split: option.splits prod.splits if_splits)
  next
    case ConsFlushed
    show ?thesis using f False ConsFlushed
      by (cases "consumer st"; cases "producer st")
         (auto simp: step_def fifo_def pending_def inhand_def written_append attempted_append
               split: option.splits)
  next
    case ConsTimeout
    show ?thesis using f False ConsTimeout
      by (cases "consumer st"; cases "producer st")
         (auto simp: step_def fifo_def pending_def inhand_def return_def atomic_AddInt32_def)
  next
    case ConsCtxDone
    show ?thesis using f False ConsCtxDone
      by (cases "consumer st"; cases "producer st")
         (auto simp: step_def fifo_def pending_def inhand_def return_def atomic_AddInt32_def)
  qed (use False in \<open>auto simp: step_def atomic_AddInt32_def intro!: frame\<close>)
qed

lemma run_fifo: "fifo st \<Longrightarrow> fifo (run E evs st)"
  by (induction evs arbitrary: st) (simp_all add: step_fifo)

lemma start_fifo: "fifo (start s f0 w t0)"
  by (simp add: start_def fifo_def pending_def inhand_def atomic_AddInt32_def Let_def)

lemma fifo_prefix: 
  assumes "fifo st"
  shows "prefix (written (sinkLog st)) (changed (polled st))"
proof -
  have "prefix (written (sinkLog st)) (attempted (sinkLog st))"
    using assms by (auto simp: fifo_def split: consumer.splits)
  moreover have "prefix (attempted (sinkLog st)) (changed (polled st))"
    using assms by (metis fifo_def prefixI)
  ultimately show ?thesis by (rule prefix_order.trans)
qed

subsection \<open>The start of a call\<close>

lemma start_rejected:
  "tooMany (fst (atomic_AddInt32 s 1)) s \<Longrightarrow>
   start s f0 w t0 =
     \<lparr>strm = s\<lparr>activeCount := activeCount s + 1 - 1\<rparr>, now = t0, ctxDone = False, producer = PInit, tickC = False,
      nextTick = t0, fnState = f0, polled = [],
      consumer = CReturned Rejected (Some (errors_New ''too many streams'')), sink = w, sinkLog = [],
      sinkAt = []\<rparr>"
  by (simp add: start_def atomic_AddInt32_def Let_def return_def)

lemma start_admitted:
  "\<not> tooMany (fst (atomic_AddInt32 s 1)) s \<Longrightarrow>
   start s f0 w t0 =
     \<lparr>strm = s\<lparr>activeCount := activeCount s + 1\<rparr>, now = t0, ctxDone = False, producer = PInit, tickC = False,
      nextTick = t0, fnState = f0, polled = [], consumer = CSelect (t0 + TimeOut s), sink = w, sinkLog = [],
      sinkAt = []\<rparr>"
  by (simp add: start_def atomic_AddInt32_def Let_def)

subsection \<open>After a failure of the check function\<close>

lemma step_waiting:
  "waiting resp st \<Longrightarrow> err resp \<noteq> None \<Longrightarrow>
   waiting resp (step E ev st) \<and> polled (step E ev st) = polled st"
  by (cases ev) (auto simp: step_unfold waiting_def split: step_splits)

lemma run_waiting:
  "waiting resp st \<Longrightarrow> err resp \<noteq> None \<Longrightarrow>
   waiting resp (run E evs st) \<and> polled (run E evs st) = polled st"
proof (induction evs arbitrary: st)
  case Nil
  then show ?case by simp
next
  case (Cons ev evs)
  then show ?case using step_waiting [of resp st E ev] by simp
qed

lemma recv_error:
  "consumer st = CSelect d \<Longrightarrow> producer st = PSend resp fin \<Longrightarrow> err resp = Some e \<Longrightarrow>
   step E ConsRecv st = return RespErr (Some e) (st\<lparr>producer := (if fin then PClosed else PSelect)\<rparr>)"
  by (simp add: step_def Let_def)

lemma tick_error:
  "producer st = PSelect \<Longrightarrow> tickC st \<Longrightarrow> fn E (fnState st) = ((p, u, Some e), f') \<Longrightarrow>
   step E ProdTick st =
     st\<lparr>tickC := False, fnState := f', polled := polled st @ [(p, u, Some e)],
        producer := PSend \<lparr>data = None, err = Some (errors_Wrap e ''can't get stream data'')\<rparr> True\<rparr>"
  by (simp add: step_def)

subsection \<open>Return values\<close>

lemma step_graceful: "graceful st \<Longrightarrow> graceful (step E ev st)"
  by (cases ev) (auto simp: step_unfold graceful_def split: step_splits)

lemma run_graceful: "graceful st \<Longrightarrow> graceful (run E evs st)"
  by (induction evs arbitrary: st) (simp_all add: step_graceful)

lemma start_graceful: "graceful (start s f0 w t0)"
  by (simp add: start_def graceful_def atomic_AddInt32_def Let_def)

subsection \<open>A quiet check function\<close>

lemma step_quiet:
  assumes "\<forall>f. fst (snd (fst (fn E f))) = False \<and> snd (snd (fst (fn E f))) = None" and "quiet D w st"
  shows "quiet D w (step E ev st)"
proof (cases ev)
  case ProdTick
  obtain p u e f' where r: "fn E (fnState st) = ((p, u, e), f')"
    by (metis prod_cases3 surj_pair)
  have "\<not> u \<and> e = None" using assms(1) [rule_format, of "fnState st"] r by simp
  then show ?thesis using assms(2) ProdTick r
    by (auto simp: step_unfold quiet_def split: step_splits)
next
  case (Elapse d)
  then show ?thesis using assms(2)
    by (auto simp: step_unfold quiet_def split: step_splits)
qed (use assms(2) in \<open>auto simp: step_unfold quiet_def split: step_splits\<close>)

lemma run_quiet:
  assumes "\<forall>f. fst (snd (fst (fn E f))) = False \<and> snd (snd (fst (fn E f))) = None"
  shows "quiet D w st \<Longrightarrow> quiet D w (run E evs st)"
  by (induction evs arbitrary: st) (simp_all add: step_quiet [OF assms])

lemma start_quiet:
  "\<not> tooMany (fst (atomic_AddInt32 s 1)) s \<Longrightarrow> quiet (t0 + TimeOut s) w (start s f0 w t0)"
  by (simp add: start_admitted quiet_def)

subsection \<open>The timer\<close>





subsection \<open>Calls on the sink\<close>

lemma step_sink:
  "ev \<noteq> ConsWritten \<Longrightarrow> ev \<noteq> ConsFlushed \<Longrightarrow>
   sinkLog (step E ev st) = sinkLog st \<and> sink (step E ev st) = sink st"
  by (cases ev) (auto simp: step_unfold split: step_splits)


lemma step_inside:
  "(consumer st = CWrite resp \<and> ev \<noteq> ConsWritten) \<or> (consumer st = CFlush \<and> ev \<noteq> ConsFlushed) \<Longrightarrow>
   consumer (step E ev st) = consumer st"
  by (cases ev) (auto simp: step_unfold split: step_splits)

text \<open>The equations that evaluate a run on concrete inputs.\<close>

lemmas eval_simps = Activate_def start_def cfg_def atomic_AddInt32_def tooMany_def step_def elapse_def
  return_def Let_def fnCount_def fnQuiet_def fnFail_def bufWrite_def brokenWrite_def counting_def
  idle_def retval_def failing_def broken_def silent_def first_poll_def served_def busy_def

section \<open>The claims\<close>



text \<open>
  C2. The deferred decrement runs on every return of \<^verbatim>\<open>Activate\<close>. Once the call has
  returned, through whichever of its six \<^verbatim>\<open>return\<close> statements (rejection, context
  done, timeout, channel closed, producer error, failed write), the counter is its
  value before the call plus what the other calls added meanwhile: the call's own net
  change is zero. While the call is in its loop, waiting in \<^verbatim>\<open>select\<close> or inside a call
  on the sink, the counter is one higher. The process is taken to be alive (the
  goroutine has not panicked).
\<close>

theorem Activate_counter:
  "producer (Activate E s f0 w t0 evs) \<noteq> PPanic \<Longrightarrow>
   (\<forall>x r. consumer (Activate E s f0 w t0 evs) = CReturned x r \<longrightarrow>
      activeCount (strm (Activate E s f0 w t0 evs)) = activeCount s + others evs)
   \<and> (\<forall>d. consumer (Activate E s f0 w t0 evs) = CSelect d \<longrightarrow>
      activeCount (strm (Activate E s f0 w t0 evs)) = activeCount s + 1 + others evs)
   \<and> (\<forall>resp. consumer (Activate E s f0 w t0 evs) = CWrite resp \<longrightarrow>
      activeCount (strm (Activate E s f0 w t0 evs)) = activeCount s + 1 + others evs)
   \<and> (consumer (Activate E s f0 w t0 evs) = CFlush \<longrightarrow>
      activeCount (strm (Activate E s f0 w t0 evs)) = activeCount s + 1 + others evs)"
proof -
  assume alive: "producer (Activate E s f0 w t0 evs) \<noteq> PPanic"
  let ?A = "Activate E s f0 w t0 evs"
  have "activeCount (strm ?A) - inflight ?A
        = activeCount (strm (start s f0 w t0)) - inflight (start s f0 w t0) + others evs"
    using alive unfolding Activate_def by (rule run_count)
  then have "activeCount (strm ?A) - inflight ?A = activeCount s + others evs"
    by (simp add: start_count)
  then have "activeCount (strm ?A) = activeCount s + others evs + inflight ?A"
    by (simp add: algebra_simps)
  then show ?thesis by (auto simp: inflight_def)
qed

theorem Activate_counter_witness:
  "consumer (Activate counting (cfg 3 1 0) 0 [] 0 [OtherEnter]) = CReturned Rejected (Some (errors_New ''too many streams''))
   \<and> activeCount (strm (Activate counting (cfg 3 1 0) 0 [] 0 [OtherEnter])) = 1
   \<and> consumer (Activate counting (cfg 3 1 9) 0 [] 0 [OtherEnter, Cancel, ConsCtxDone, OtherLeave]) = CReturned CtxDone None
   \<and> activeCount (strm (Activate counting (cfg 3 1 9) 0 [] 0 [OtherEnter, Cancel, ConsCtxDone, OtherLeave])) = 0
   \<and> consumer (Activate counting (cfg 3 1 9) 0 [] 0 [Elapse 3, ConsTimeout]) = CReturned TimedOut None
   \<and> activeCount (strm (Activate counting (cfg 3 1 9) 0 [] 0 [Elapse 3, ConsTimeout])) = 0
   \<and> consumer (Activate counting (cfg 3 1 9) 0 [] 0 [ProdStart, Cancel, ProdCtxDone, ConsRecv]) = CReturned ChanClosed None
   \<and> activeCount (strm (Activate counting (cfg 3 1 9) 0 [] 0 [ProdStart, Cancel, ProdCtxDone, ConsRecv])) = 0
   \<and> consumer (Activate failing (cfg 3 1 9) 0 [] 0 [ProdStart, Elapse 1, ProdTick, ConsRecv])
       = CReturned RespErr (Some (errors_Wrap (Foreign ''boom'') ''can't get stream data''))
   \<and> activeCount (strm (Activate failing (cfg 3 1 9) 0 [] 0 [ProdStart, Elapse 1, ProdTick, ConsRecv])) = 0
   \<and> consumer (Activate broken (cfg 3 1 9) 0 [] 0 [ProdStart, Elapse 1, ProdTick, ConsRecv, OtherEnter, ConsWritten, OtherLeave])
       = CReturned WriteErr (Some (errors_Wrap (Foreign ''broken pipe'') ''send to stream failed''))
   \<and> activeCount (strm (Activate broken (cfg 3 1 9) 0 [] 0 [ProdStart, Elapse 1, ProdTick, ConsRecv, OtherEnter, ConsWritten, OtherLeave])) = 0
   \<and> consumer (Activate counting (cfg 3 1 9) 0 [] 0 [OtherEnter, ProdStart]) = CSelect 3
   \<and> activeCount (strm (Activate counting (cfg 3 1 9) 0 [] 0 [OtherEnter, ProdStart])) = 2
   \<and> consumer (Activate counting (cfg 3 1 9) 0 [] 0 (first_poll @ [ConsRecv, OtherEnter]))
       = CWrite \<lparr>data = Some [0], err = None\<rparr>
   \<and> activeCount (strm (Activate counting (cfg 3 1 9) 0 [] 0 (first_poll @ [ConsRecv, OtherEnter]))) = 2
   \<and> consumer (Activate counting (cfg 3 1 9) 0 [] 0 (first_poll @ [ConsRecv, ConsWritten])) = CFlush
   \<and> activeCount (strm (Activate counting (cfg 3 1 9) 0 [] 0 (first_poll @ [ConsRecv, ConsWritten]))) = 1"
proof -
  have 1: "consumer (Activate counting (cfg 3 1 0) 0 [] 0 [OtherEnter]) = CReturned Rejected (Some (errors_New ''too many streams''))"
    and 2: "consumer (Activate counting (cfg 3 1 9) 0 [] 0 [OtherEnter, Cancel, ConsCtxDone, OtherLeave]) = CReturned CtxDone None"
    and 3: "consumer (Activate counting (cfg 3 1 9) 0 [] 0 [Elapse 3, ConsTimeout]) = CReturned TimedOut None"
    and 4: "consumer (Activate counting (cfg 3 1 9) 0 [] 0 [ProdStart, Cancel, ProdCtxDone, ConsRecv]) = CReturned ChanClosed None"
    and 5: "consumer (Activate failing (cfg 3 1 9) 0 [] 0 [ProdStart, Elapse 1, ProdTick, ConsRecv])
       = CReturned RespErr (Some (errors_Wrap (Foreign ''boom'') ''can't get stream data''))"
    and 6: "consumer (Activate broken (cfg 3 1 9) 0 [] 0 [ProdStart, Elapse 1, ProdTick, ConsRecv, OtherEnter, ConsWritten, OtherLeave])
       = CReturned WriteErr (Some (errors_Wrap (Foreign ''broken pipe'') ''send to stream failed''))"
    and 7: "consumer (Activate counting (cfg 3 1 9) 0 [] 0 [OtherEnter, ProdStart]) = CSelect 3"
    and 8: "consumer (Activate counting (cfg 3 1 9) 0 [] 0 (first_poll @ [ConsRecv, OtherEnter]))
       = CWrite \<lparr>data = Some [0], err = None\<rparr>"
    and 9: "consumer (Activate counting (cfg 3 1 9) 0 [] 0 (first_poll @ [ConsRecv, ConsWritten])) = CFlush"
    by (simp_all add: eval_simps)
  have p: "producer (Activate counting (cfg 3 1 0) 0 [] 0 [OtherEnter]) \<noteq> PPanic"
    "producer (Activate counting (cfg 3 1 9) 0 [] 0 [OtherEnter, Cancel, ConsCtxDone, OtherLeave]) \<noteq> PPanic"
    "producer (Activate counting (cfg 3 1 9) 0 [] 0 [Elapse 3, ConsTimeout]) \<noteq> PPanic"
    "producer (Activate counting (cfg 3 1 9) 0 [] 0 [ProdStart, Cancel, ProdCtxDone, ConsRecv]) \<noteq> PPanic"
    "producer (Activate failing (cfg 3 1 9) 0 [] 0 [ProdStart, Elapse 1, ProdTick, ConsRecv]) \<noteq> PPanic"
    "producer (Activate broken (cfg 3 1 9) 0 [] 0 [ProdStart, Elapse 1, ProdTick, ConsRecv, OtherEnter, ConsWritten, OtherLeave]) \<noteq> PPanic"
    "producer (Activate counting (cfg 3 1 9) 0 [] 0 [OtherEnter, ProdStart]) \<noteq> PPanic"
    "producer (Activate counting (cfg 3 1 9) 0 [] 0 (first_poll @ [ConsRecv, OtherEnter])) \<noteq> PPanic"
    "producer (Activate counting (cfg 3 1 9) 0 [] 0 (first_poll @ [ConsRecv, ConsWritten])) \<noteq> PPanic"
    by (simp_all add: eval_simps)
  have a: "activeCount (cfg 3 1 0) = 0" "activeCount (cfg 3 1 9) = 0" by (simp_all add: cfg_def)
  show ?thesis
    using Activate_counter [OF p(1)] Activate_counter [OF p(2)] Activate_counter [OF p(3)]
      Activate_counter [OF p(4)] Activate_counter [OF p(5)] Activate_counter [OF p(6)] Activate_counter [OF p(7)]
      Activate_counter [OF p(8)] Activate_counter [OF p(9)]
    unfolding 1 2 3 4 5 6 7 8 9 a by (simp add: first_poll_def)
qed

text \<open>
  C9. A rejected call returns the error \<^verbatim>\<open>too many streams\<close> and, whatever the
  goroutine it started does afterwards, no call is ever made on the sink, which
  stays as it was given.
\<close>

theorem rejection_leaves_sink:
  "tooMany (fst (atomic_AddInt32 s 1)) s \<Longrightarrow>
   retval (Activate E s f0 w t0 evs) = Some (Some (errors_New ''too many streams''))
   \<and> sinkLog (Activate E s f0 w t0 evs) = [] \<and> sink (Activate E s f0 w t0 evs) = w"
proof -
  assume "tooMany (fst (atomic_AddInt32 s 1)) s"
  then have "consumer (start s f0 w t0) = CReturned Rejected (Some (errors_New ''too many streams''))"
    and "sinkLog (start s f0 w t0) = []" and "sink (start s f0 w t0) = w"
    by (simp_all add: start_rejected)
  then show ?thesis
    using run_returned [of "start s f0 w t0" Rejected "Some (errors_New ''too many streams'')" E evs]
    by (simp add: Activate_def retval_def)
qed

theorem rejection_leaves_sink_witness:
  "tooMany (fst (atomic_AddInt32 (cfg 3 1 0) 1)) (cfg 3 1 0)
   \<and> retval (Activate counting (cfg 3 1 0) 0 [] 0 [ProdStart, Elapse 1, ProdTick, ConsRecv, Elapse 5, ConsTimeout])
       = Some (Some (errors_New ''too many streams''))
   \<and> sinkLog (Activate counting (cfg 3 1 0) 0 [] 0 [ProdStart, Elapse 1, ProdTick, ConsRecv, Elapse 5, ConsTimeout]) = []
   \<and> sink (Activate counting (cfg 3 1 0) 0 [] 0 [ProdStart, Elapse 1, ProdTick, ConsRecv, Elapse 5, ConsTimeout]) = []"
proof -
  have r: "tooMany (fst (atomic_AddInt32 (cfg 3 1 0) 1)) (cfg 3 1 0)"
    by (simp add: tooMany_def atomic_AddInt32_def cfg_def)
  show ?thesis
    using rejection_leaves_sink [OF r, of counting 0 "[]" 0 "[ProdStart, Elapse 1, ProdTick, ConsRecv, Elapse 5, ConsTimeout]"] r
    by (intro conjI) (erule conjE | assumption)+
qed

text \<open>
  C6 (as amended). In every run the payloads the sink accepted are a prefix of the
  payloads of the check-function results that reported a change and no error, in the
  order produced: nothing is reordered, repeated or left out in the middle. While the
  call has not returned, the two differ exactly by the record the consumer is writing
  and the record the goroutine is blocked sending, at most one of each. Once the call
  has returned, nothing that happens later makes a call on the sink: a record still in
  the channel at the return is never written.
\<close>

theorem delivery_in_order:
  "prefix (written (sinkLog (Activate E s f0 w t0 evs))) (changed (polled (Activate E s f0 w t0 evs)))
   \<and> (retval (Activate E s f0 w t0 evs) = None \<longrightarrow>
        written (sinkLog (Activate E s f0 w t0 evs)) @ inhand (Activate E s f0 w t0 evs)
          @ pending (Activate E s f0 w t0 evs)
        = changed (polled (Activate E s f0 w t0 evs)))
   \<and> length (inhand (Activate E s f0 w t0 evs)) \<le> 1 \<and> length (pending (Activate E s f0 w t0 evs)) \<le> 1
   \<and> (\<forall>x r later. consumer (Activate E s f0 w t0 evs) = CReturned x r \<longrightarrow>
        retval (Activate E s f0 w t0 (evs @ later)) = Some r
        \<and> sinkLog (Activate E s f0 w t0 (evs @ later)) = sinkLog (Activate E s f0 w t0 evs)
        \<and> sink (Activate E s f0 w t0 (evs @ later)) = sink (Activate E s f0 w t0 evs))"
proof -
  let ?A = "Activate E s f0 w t0 evs"
  have f: "fifo ?A"
    unfolding Activate_def by (intro run_fifo start_fifo)
  have 1: "prefix (written (sinkLog ?A)) (changed (polled ?A))"
    by (rule fifo_prefix [OF f])
  have 2: "retval ?A = None \<longrightarrow> written (sinkLog ?A) @ inhand ?A @ pending ?A = changed (polled ?A)"
    using f by (auto simp: fifo_def retval_def split: consumer.splits)
  have 3: "length (inhand ?A) \<le> 1 \<and> length (pending ?A) \<le> 1"
    by (simp add: inhand_def pending_def split: consumer.splits producer.splits)
  have 4: "retval (Activate E s f0 w t0 (evs @ later)) = Some r
        \<and> sinkLog (Activate E s f0 w t0 (evs @ later)) = sinkLog ?A
        \<and> sink (Activate E s f0 w t0 (evs @ later)) = sink ?A"
    if "consumer ?A = CReturned x r" for x r later
  proof -
    have "Activate E s f0 w t0 (evs @ later) = run E later ?A"
      by (simp add: Activate_def run_append)
    then show ?thesis using run_returned [OF that, of E later] by (simp add: retval_def)
  qed
  show ?thesis using 1 2 3 4 by blast
qed

theorem delivery_in_order_witness:
  "retval (Activate counting (cfg 3 1 9) 0 [] 0 (first_poll @ served @ [Elapse 1, ProdTick, ConsRecv, Elapse 1, ProdTick]))
      = None
   \<and> written (sinkLog (Activate counting (cfg 3 1 9) 0 [] 0
        (first_poll @ served @ [Elapse 1, ProdTick, ConsRecv, Elapse 1, ProdTick]))) = [Some [0]]
   \<and> inhand (Activate counting (cfg 3 1 9) 0 [] 0
        (first_poll @ served @ [Elapse 1, ProdTick, ConsRecv, Elapse 1, ProdTick])) = [Some [1]]
   \<and> pending (Activate counting (cfg 3 1 9) 0 [] 0
        (first_poll @ served @ [Elapse 1, ProdTick, ConsRecv, Elapse 1, ProdTick])) = [Some [2]]
   \<and> changed (polled (Activate counting (cfg 3 1 9) 0 [] 0
        (first_poll @ served @ [Elapse 1, ProdTick, ConsRecv, Elapse 1, ProdTick]))) = [Some [0], Some [1], Some [2]]
   \<and> consumer (Activate counting (cfg 3 1 9) 0 [] 0 (first_poll @ [Cancel, ConsCtxDone])) = CReturned CtxDone None
   \<and> sinkLog (Activate counting (cfg 3 1 9) 0 [] 0 ((first_poll @ [Cancel, ConsCtxDone]) @ served))
      = sinkLog (Activate counting (cfg 3 1 9) 0 [] 0 (first_poll @ [Cancel, ConsCtxDone]))
   \<and> sinkLog (Activate counting (cfg 3 1 9) 0 [] 0 (first_poll @ [Cancel, ConsCtxDone])) = []"
proof -
  let ?evs = "first_poll @ served @ [Elapse 1, ProdTick, ConsRecv, Elapse 1, ProdTick]"
  let ?A = "Activate counting (cfg 3 1 9) 0 [] 0 ?evs"
  let ?B = "Activate counting (cfg 3 1 9) 0 [] 0 (first_poll @ [Cancel, ConsCtxDone])"
  have 1: "retval ?A = None"
    and 2: "written (sinkLog ?A) = [Some [0]]"
    and 3: "inhand ?A = [Some [1]]"
    and 4: "pending ?A = [Some [2]]"
    and 5: "consumer ?B = CReturned CtxDone None"
    and 6: "sinkLog ?B = []"
    by (simp_all add: eval_simps pending_def inhand_def)
  note T = delivery_in_order [of counting "cfg 3 1 9" 0 "[]" 0 ?evs]
  note U = delivery_in_order [of counting "cfg 3 1 9" 0 "[]" 0 "first_poll @ [Cancel, ConsCtxDone]"]
  have "written (sinkLog ?A) @ inhand ?A @ pending ?A = changed (polled ?A)"
    by (rule T [THEN conjunct2, THEN conjunct1, THEN mp, OF 1])
  then have 7: "changed (polled ?A) = [Some [0], Some [1], Some [2]]"
    unfolding 2 3 4 by simp
  have 8: "sinkLog (Activate counting (cfg 3 1 9) 0 [] 0 ((first_poll @ [Cancel, ConsCtxDone]) @ served)) = sinkLog ?B"
    using U [THEN conjunct2, THEN conjunct2, THEN conjunct2, THEN conjunct2, THEN spec, THEN spec, THEN spec,
             THEN mp, OF 5, of served]
    by simp
  show ?thesis using 1 2 3 4 5 6 7 8 by simp
qed

text \<open>
  C6 as stated fails: the check function reports a change, the client cancels before
  the consumer takes the record, \<^verbatim>\<open>Activate\<close> returns \<^verbatim>\<open>nil\<close>, and the sink has
  received nothing although one change was reported.
\<close>

theorem delivery_in_order_counterexample:
  "retval (Activate counting (cfg 3 1 9) 0 [] 0 [ProdStart, Elapse 1, ProdTick, Cancel, ConsCtxDone]) = Some None
   \<and> changed (polled (Activate counting (cfg 3 1 9) 0 [] 0 [ProdStart, Elapse 1, ProdTick, Cancel, ConsCtxDone])) = [Some [0]]
   \<and> written (sinkLog (Activate counting (cfg 3 1 9) 0 [] 0 [ProdStart, Elapse 1, ProdTick, Cancel, ConsCtxDone])) = []
   \<and> written (sinkLog (Activate counting (cfg 3 1 9) 0 [] 0 [ProdStart, Elapse 1, ProdTick, Cancel, ConsCtxDone]))
      \<noteq> changed (polled (Activate counting (cfg 3 1 9) 0 [] 0 [ProdStart, Elapse 1, ProdTick, Cancel, ConsCtxDone]))"
  by (simp add: eval_simps)




text \<open>
  C4 (as amended). When the check function returns an error, the goroutine makes a
  record with no payload and that error wrapped with \<^verbatim>\<open>can't get stream data\<close>, and
  never calls the check function again, whatever happens afterwards. When the consumer
  receives the record, \<^verbatim>\<open>Activate\<close> returns the wrapped error as it is.
\<close>

theorem producer_failure:
  "producer st = PSelect \<and> tickC st \<and> fn E (fnState st) = ((p, u, Some e), f') \<longrightarrow>
     producer (step E ProdTick st)
       = PSend \<lparr>data = None, err = Some (errors_Wrap e ''can't get stream data'')\<rparr> True
     \<and> polled (step E ProdTick st) = polled st @ [(p, u, Some e)]
     \<and> (\<forall>evs. polled (run E evs (step E ProdTick st)) = polled (step E ProdTick st))
     \<and> (\<forall>evs d. consumer (run E evs (step E ProdTick st)) = CSelect d \<longrightarrow>
           consumer (step E ConsRecv (run E evs (step E ProdTick st)))
           = CReturned RespErr (Some (errors_Wrap e ''can't get stream data'')))"
proof (intro impI)
  assume a: "producer st = PSelect \<and> tickC st \<and> fn E (fnState st) = ((p, u, Some e), f')"
  let ?resp = "\<lparr>data = None, err = Some (errors_Wrap e ''can't get stream data'')\<rparr>"
  let ?st = "step E ProdTick st"
  have t: "?st = st\<lparr>tickC := False, fnState := f', polled := polled st @ [(p, u, Some e)],
                    producer := PSend ?resp True\<rparr>"
    using a by (intro tick_error) simp_all
  have w: "waiting ?resp ?st" by (simp add: t waiting_def)
  have e: "err ?resp \<noteq> None" by simp
  have r: "\<And>evs. waiting ?resp (run E evs ?st) \<and> polled (run E evs ?st) = polled ?st"
    using w e by (rule run_waiting)
  have c: "consumer (step E ConsRecv (run E evs ?st)) = CReturned RespErr (Some (errors_Wrap e ''can't get stream data''))"
    if "consumer (run E evs ?st) = CSelect d" for evs d
  proof -
    have p: "producer (run E evs ?st) = PSend ?resp True"
      using r [of evs] that by (auto simp: waiting_def)
    have q: "err ?resp = Some (errors_Wrap e ''can't get stream data'')" by simp
    show ?thesis by (simp add: recv_error [OF that p q])
  qed
  show "producer ?st = PSend ?resp True
     \<and> polled ?st = polled st @ [(p, u, Some e)]
     \<and> (\<forall>evs. polled (run E evs ?st) = polled ?st)
     \<and> (\<forall>evs d. consumer (run E evs ?st) = CSelect d \<longrightarrow>
           consumer (step E ConsRecv (run E evs ?st))
           = CReturned RespErr (Some (errors_Wrap e ''can't get stream data'')))"
    using r c by (simp add: t)
qed

theorem producer_failure_witness:
  "producer (step failing ProdTick (Activate failing (cfg 3 1 9) 0 [] 0 [ProdStart, Elapse 1]))
     = PSend \<lparr>data = None, err = Some (errors_Wrap (Foreign ''boom'') ''can't get stream data'')\<rparr> True
   \<and> polled (run failing [Elapse 1, ProdTick, Elapse 1, ProdTick]
                (step failing ProdTick (Activate failing (cfg 3 1 9) 0 [] 0 [ProdStart, Elapse 1])))
      = [(None, False, Some (Foreign ''boom''))]
   \<and> consumer (step failing ConsRecv (run failing [Elapse 1, ProdTick]
                (step failing ProdTick (Activate failing (cfg 3 1 9) 0 [] 0 [ProdStart, Elapse 1]))))
      = CReturned RespErr (Some (errors_Wrap (Foreign ''boom'') ''can't get stream data''))"
proof -
  let ?A = "Activate failing (cfg 3 1 9) 0 [] 0 [ProdStart, Elapse 1]"
  have h: "producer ?A = PSelect \<and> tickC ?A
           \<and> fn failing (fnState ?A) = ((None, False, Some (Foreign ''boom'')), Suc 0)"
    and p: "polled ?A = []"
    by (simp_all add: eval_simps)
  note T = producer_failure [of ?A failing None False "Foreign ''boom''" "Suc 0", THEN mp, OF h]
  have c: "consumer (run failing [Elapse 1, ProdTick] (step failing ProdTick ?A)) = CSelect 3"
    by (simp add: eval_simps)
  have 1: "producer (step failing ProdTick ?A)
     = PSend \<lparr>data = None, err = Some (errors_Wrap (Foreign ''boom'') ''can't get stream data'')\<rparr> True"
    by (rule T [THEN conjunct1])
  have 2: "polled (step failing ProdTick ?A) = polled ?A @ [(None, False, Some (Foreign ''boom''))]"
    by (rule T [THEN conjunct2, THEN conjunct1])
  have 3: "polled (run failing [Elapse 1, ProdTick, Elapse 1, ProdTick] (step failing ProdTick ?A))
           = polled (step failing ProdTick ?A)"
    by (rule T [THEN conjunct2, THEN conjunct2, THEN conjunct1, THEN spec])
  have 4: "consumer (step failing ConsRecv (run failing [Elapse 1, ProdTick] (step failing ProdTick ?A)))
      = CReturned RespErr (Some (errors_Wrap (Foreign ''boom'') ''can't get stream data''))"
    by (rule T [THEN conjunct2, THEN conjunct2, THEN conjunct2, THEN spec, THEN spec, THEN mp, OF c])
  show ?thesis unfolding 3 2 p using 1 4 by simp
qed

text \<open>
  C4 as stated fails: the check function fails with \<^verbatim>\<open>boom\<close>, and \<^verbatim>\<open>Activate\<close> returns
  not that error but the error wrapped by the goroutine.
\<close>

theorem producer_failure_counterexample:
  "polled (Activate failing (cfg 3 1 9) 0 [] 0 (first_poll @ [ConsRecv])) = [(None, False, Some (Foreign ''boom''))]
   \<and> retval (Activate failing (cfg 3 1 9) 0 [] 0 (first_poll @ [ConsRecv]))
       = Some (Some (errors_Wrap (Foreign ''boom'') ''can't get stream data''))
   \<and> retval (Activate failing (cfg 3 1 9) 0 [] 0 (first_poll @ [ConsRecv])) \<noteq> Some (Some (Foreign ''boom''))"
  by (simp add: eval_simps)

text \<open>
  C5. With the call in its loop, taking the case of the done context, of the due timer,
  or of the closed channel makes \<^verbatim>\<open>Activate\<close> return \<^verbatim>\<open>nil\<close>; and in every run,
  a call that has returned through one of these three exits has returned \<^verbatim>\<open>nil\<close>.
\<close>

theorem graceful_terminations:
  "(consumer st = CSelect d \<and> producer st \<noteq> PPanic \<longrightarrow>
      (ctxDone st \<longrightarrow> retval (step E ConsCtxDone st) = Some None)
      \<and> (d \<le> now st \<longrightarrow> retval (step E ConsTimeout st) = Some None)
      \<and> (producer st = PClosed \<longrightarrow> retval (step E ConsRecv st) = Some None))
   \<and> (\<forall>x r. consumer (Activate E s f0 w t0 evs) = CReturned x r
          \<and> (x = CtxDone \<or> x = TimedOut \<or> x = ChanClosed) \<longrightarrow> r = None)"
proof -
  have "graceful (Activate E s f0 w t0 evs)"
    unfolding Activate_def by (intro run_graceful start_graceful)
  then have "\<forall>x r. consumer (Activate E s f0 w t0 evs) = CReturned x r
          \<and> (x = CtxDone \<or> x = TimedOut \<or> x = ChanClosed) \<longrightarrow> r = None"
    by (auto simp: graceful_def)
  moreover have "consumer st = CSelect d \<and> producer st \<noteq> PPanic \<longrightarrow>
      (ctxDone st \<longrightarrow> retval (step E ConsCtxDone st) = Some None)
      \<and> (d \<le> now st \<longrightarrow> retval (step E ConsTimeout st) = Some None)
      \<and> (producer st = PClosed \<longrightarrow> retval (step E ConsRecv st) = Some None)"
    by (simp add: step_def retval_def)
  ultimately show ?thesis by blast
qed

theorem graceful_terminations_witness:
  "retval (step counting ConsCtxDone
            (Activate counting (cfg 3 1 9) 0 [] 0 [ProdStart, Cancel, ProdCtxDone, Elapse 3])) = Some None
   \<and> retval (step counting ConsTimeout
            (Activate counting (cfg 3 1 9) 0 [] 0 [ProdStart, Cancel, ProdCtxDone, Elapse 3])) = Some None
   \<and> retval (step counting ConsRecv
            (Activate counting (cfg 3 1 9) 0 [] 0 [ProdStart, Cancel, ProdCtxDone, Elapse 3])) = Some None
   \<and> consumer (Activate counting (cfg 3 1 9) 0 [] 0 [Elapse 3, ConsTimeout]) = CReturned TimedOut None"
proof -
  let ?A = "Activate counting (cfg 3 1 9) 0 [] 0 [ProdStart, Cancel, ProdCtxDone, Elapse 3]"
  have h: "consumer ?A = CSelect 3 \<and> producer ?A \<noteq> PPanic"
    and c: "ctxDone ?A" and t: "3 \<le> now ?A" and p: "producer ?A = PClosed"
    by (simp_all add: eval_simps)
  have r: "consumer (Activate counting (cfg 3 1 9) 0 [] 0 [Elapse 3, ConsTimeout]) = CReturned TimedOut None"
    by (simp add: eval_simps)
  note T = graceful_terminations [of ?A 3 counting "cfg 3 1 9" 0 "[]" 0 "[Elapse 3, ConsTimeout]"]
  note S = T [THEN conjunct1, THEN mp, OF h]
  have x: "consumer (Activate counting (cfg 3 1 9) 0 [] 0 [Elapse 3, ConsTimeout]) = CReturned TimedOut None
           \<and> (TimedOut = CtxDone \<or> TimedOut = TimedOut \<or> TimedOut = ChanClosed)"
    using r by simp
  have "None = (None :: error option)"
    by (rule T [THEN conjunct2, THEN spec, THEN spec, THEN mp, OF x])
  then show ?thesis
    using S [THEN conjunct1, THEN mp, OF c] S [THEN conjunct2, THEN conjunct1, THEN mp, OF t]
      S [THEN conjunct2, THEN conjunct2, THEN mp, OF p] r
    by simp
qed

text \<open>
  C7. When the consumer receives a record without error it writes the payload to the
  sink, and nothing else is done on the sink before that write returns. If the write
  succeeds, the sink is flushed exactly when it is an \<^verbatim>\<open>http.Flusher\<close>, and the loop
  goes on. If the write fails, nothing more is done on the sink and \<^verbatim>\<open>Activate\<close>
  returns the sink's error wrapped with \<^verbatim>\<open>send to stream failed\<close>, which no error of
  the producer side equals. Whatever else happens while the consumer is inside the
  write or the flush leaves the sink and the consumer as they are.
\<close>

theorem sink_write_and_flush:
  "(consumer st = CSelect d \<and> producer st = PSend resp fin \<and> err resp = None \<longrightarrow>
     consumer (step E ConsRecv st) = CWrite resp
     \<and> sinkLog (step E ConsRecv st) = sinkLog st \<and> sink (step E ConsRecv st) = sink st
     \<and> (case Write E (sink st) (data resp) of
          (None, w') \<Rightarrow>
            sinkLog (run E [ConsRecv, ConsWritten, ConsFlushed] st)
              = sinkLog st @ WriteOp (data resp) None # (case Flush E of Some fl \<Rightarrow> [FlushOp] | None \<Rightarrow> [])
            \<and> sink (run E [ConsRecv, ConsWritten, ConsFlushed] st)
                = (case Flush E of Some fl \<Rightarrow> fl w' | None \<Rightarrow> w')
            \<and> retval (run E [ConsRecv, ConsWritten, ConsFlushed] st) = None
            \<and> sinkLog (run E [ConsRecv, ConsWritten] st) = sinkLog st @ [WriteOp (data resp) None]
            \<and> consumer (run E [ConsRecv, ConsWritten] st)
                = (case Flush E of Some fl \<Rightarrow> CFlush | None \<Rightarrow> CSelect (now st + TimeOut (strm st)))
        | (Some e, w') \<Rightarrow>
            sinkLog (run E [ConsRecv, ConsWritten, ConsFlushed] st)
              = sinkLog st @ [WriteOp (data resp) (Some e)]
            \<and> sink (run E [ConsRecv, ConsWritten, ConsFlushed] st) = w'
            \<and> consumer (run E [ConsRecv, ConsWritten] st)
                = CReturned WriteErr (Some (errors_Wrap e ''send to stream failed''))
            \<and> consumer (run E [ConsRecv, ConsWritten, ConsFlushed] st)
                = CReturned WriteErr (Some (errors_Wrap e ''send to stream failed''))
            \<and> (\<forall>c. errors_Wrap e ''send to stream failed'' \<noteq> errors_Wrap c ''can't get stream data'')))
   \<and> (\<forall>ev. ev \<noteq> ConsWritten \<and> ev \<noteq> ConsFlushed \<longrightarrow>
         sinkLog (step E ev st) = sinkLog st \<and> sink (step E ev st) = sink st)
   \<and> (\<forall>ev resp'. (consumer st = CWrite resp' \<and> ev \<noteq> ConsWritten)
                  \<or> (consumer st = CFlush \<and> ev \<noteq> ConsFlushed) \<longrightarrow>
         consumer (step E ev st) = consumer st)"
proof (intro conjI impI allI)
  assume a: "consumer st = CSelect d \<and> producer st = PSend resp fin \<and> err resp = None"
  then show "consumer (step E ConsRecv st) = CWrite resp"
    and "sinkLog (step E ConsRecv st) = sinkLog st" and "sink (step E ConsRecv st) = sink st"
    by (simp_all add: step_def Let_def)
  show "case Write E (sink st) (data resp) of
          (None, w') \<Rightarrow>
            sinkLog (run E [ConsRecv, ConsWritten, ConsFlushed] st)
              = sinkLog st @ WriteOp (data resp) None # (case Flush E of Some fl \<Rightarrow> [FlushOp] | None \<Rightarrow> [])
            \<and> sink (run E [ConsRecv, ConsWritten, ConsFlushed] st)
                = (case Flush E of Some fl \<Rightarrow> fl w' | None \<Rightarrow> w')
            \<and> retval (run E [ConsRecv, ConsWritten, ConsFlushed] st) = None
            \<and> sinkLog (run E [ConsRecv, ConsWritten] st) = sinkLog st @ [WriteOp (data resp) None]
            \<and> consumer (run E [ConsRecv, ConsWritten] st)
                = (case Flush E of Some fl \<Rightarrow> CFlush | None \<Rightarrow> CSelect (now st + TimeOut (strm st)))
        | (Some e, w') \<Rightarrow>
            sinkLog (run E [ConsRecv, ConsWritten, ConsFlushed] st)
              = sinkLog st @ [WriteOp (data resp) (Some e)]
            \<and> sink (run E [ConsRecv, ConsWritten, ConsFlushed] st) = w'
            \<and> consumer (run E [ConsRecv, ConsWritten] st)
                = CReturned WriteErr (Some (errors_Wrap e ''send to stream failed''))
            \<and> consumer (run E [ConsRecv, ConsWritten, ConsFlushed] st)
                = CReturned WriteErr (Some (errors_Wrap e ''send to stream failed''))
            \<and> (\<forall>c. errors_Wrap e ''send to stream failed'' \<noteq> errors_Wrap c ''can't get stream data'')"
    using a by (auto simp: step_def Let_def retval_def return_def split: prod.splits option.splits)
next
  fix ev
  assume "ev \<noteq> ConsWritten \<and> ev \<noteq> ConsFlushed"
  then show "sinkLog (step E ev st) = sinkLog st" and "sink (step E ev st) = sink st"
    using step_sink [of ev E st] by simp_all
next
  fix ev resp'
  assume "(consumer st = CWrite resp' \<and> ev \<noteq> ConsWritten) \<or> (consumer st = CFlush \<and> ev \<noteq> ConsFlushed)"
  then show "consumer (step E ev st) = consumer st"
    by (rule step_inside)
qed

theorem sink_write_and_flush_witness:
  "consumer (step counting ConsRecv (Activate counting (cfg 3 1 9) 0 [] 0 first_poll))
     = CWrite \<lparr>data = Some [0], err = None\<rparr>
   \<and> sinkLog (run counting [ConsRecv, ConsWritten, ConsFlushed] (Activate counting (cfg 3 1 9) 0 [] 0 first_poll))
     = [WriteOp (Some [0]) None, FlushOp]
   \<and> sink (run counting [ConsRecv, ConsWritten, ConsFlushed] (Activate counting (cfg 3 1 9) 0 [] 0 first_poll))
     = [Some [0]]
   \<and> retval (run counting [ConsRecv, ConsWritten, ConsFlushed] (Activate counting (cfg 3 1 9) 0 [] 0 first_poll))
     = None
   \<and> sinkLog (run broken [ConsRecv, ConsWritten, ConsFlushed] (Activate broken (cfg 3 1 9) 0 [] 0 first_poll))
     = [WriteOp (Some [0]) (Some (Foreign ''broken pipe''))]
   \<and> consumer (run broken [ConsRecv, ConsWritten] (Activate broken (cfg 3 1 9) 0 [] 0 first_poll))
     = CReturned WriteErr (Some (errors_Wrap (Foreign ''broken pipe'') ''send to stream failed''))
   \<and> sinkLog (step counting (Elapse 2) (Activate counting (cfg 3 1 9) 0 [] 0 (first_poll @ [ConsRecv])))
     = sinkLog (Activate counting (cfg 3 1 9) 0 [] 0 (first_poll @ [ConsRecv]))
   \<and> consumer (step counting (Elapse 2) (Activate counting (cfg 3 1 9) 0 [] 0 (first_poll @ [ConsRecv])))
     = consumer (Activate counting (cfg 3 1 9) 0 [] 0 (first_poll @ [ConsRecv]))"
proof -
  let ?A = "Activate counting (cfg 3 1 9) 0 [] 0 first_poll"
  let ?B = "Activate broken (cfg 3 1 9) 0 [] 0 first_poll"
  let ?C = "Activate counting (cfg 3 1 9) 0 [] 0 (first_poll @ [ConsRecv])"
  let ?r = "\<lparr>data = Some [0 :: 8 word], err = None\<rparr>"
  have a: "consumer ?A = CSelect 3 \<and> producer ?A = PSend ?r False \<and> err ?r = None"
    and b: "consumer ?B = CSelect 3 \<and> producer ?B = PSend ?r False \<and> err ?r = None"
    and l: "sinkLog ?A = []" "sinkLog ?B = []" "sink ?A = []" "sink ?B = []"
    by (simp_all add: eval_simps)
  have c: "(consumer ?C = CWrite ?r \<and> Elapse 2 \<noteq> ConsWritten) \<or> (consumer ?C = CFlush \<and> Elapse 2 \<noteq> ConsFlushed)"
    by (simp add: eval_simps)
  have e: "Elapse 2 \<noteq> ConsWritten \<and> Elapse 2 \<noteq> ConsFlushed" by simp
  have w: "Write counting [] (Some [0]) = (None, [Some [0]])"
    "Write broken [] (Some [0]) = (Some (Foreign ''broken pipe''), [])"
    "Flush counting = Some id"
    by (simp_all add: counting_def broken_def bufWrite_def brokenWrite_def)
  note TA = sink_write_and_flush [of ?A 3 ?r False counting, THEN conjunct1, THEN mp, OF a]
  note TB = sink_write_and_flush [of ?B 3 ?r False broken, THEN conjunct1, THEN mp, OF b]
  note TC = sink_write_and_flush [of ?C 3 ?r False counting, THEN conjunct2]
  have 1: "sinkLog (step counting (Elapse 2) ?C) = sinkLog ?C"
    using TC [THEN conjunct1, THEN spec, THEN mp, OF e] by simp
  have 2: "consumer (step counting (Elapse 2) ?C) = consumer ?C"
    by (rule TC [THEN conjunct2, THEN spec, THEN spec, THEN mp, OF c])
  show ?thesis
    using TA TB 1 2 unfolding l by (simp add: w)
qed

text \<open>
  C8. An accepted stream whose check function always reports no change and no error:
  in every run no call is made on the sink, and if \<^verbatim>\<open>Activate\<close> has returned it has
  returned \<^verbatim>\<open>nil\<close>, either by the timeout, not before \<open>TimeOut\<close> has passed since the
  start, or after the context was cancelled (directly, or because the goroutine
  closed the channel on the cancellation).
\<close>

theorem quiet_stream:
  "(\<forall>f. fst (snd (fst (fn E f))) = False \<and> snd (snd (fst (fn E f))) = None)
   \<and> \<not> tooMany (fst (atomic_AddInt32 s 1)) s \<longrightarrow>
     sinkLog (Activate E s f0 w t0 evs) = [] \<and> sink (Activate E s f0 w t0 evs) = w
     \<and> (\<forall>x r. consumer (Activate E s f0 w t0 evs) = CReturned x r \<longrightarrow>
          r = None
          \<and> ((x = TimedOut \<and> t0 + TimeOut s \<le> now (Activate E s f0 w t0 evs))
             \<or> ((x = CtxDone \<or> x = ChanClosed) \<and> ctxDone (Activate E s f0 w t0 evs))))"
proof (intro impI)
  assume a: "(\<forall>f. fst (snd (fst (fn E f))) = False \<and> snd (snd (fst (fn E f))) = None)
   \<and> \<not> tooMany (fst (atomic_AddInt32 s 1)) s"
  then have "quiet (t0 + TimeOut s) w (start s f0 w t0)" by (simp add: start_quiet)
  then have "quiet (t0 + TimeOut s) w (Activate E s f0 w t0 evs)"
    unfolding Activate_def using a by (intro run_quiet) simp_all
  then show "sinkLog (Activate E s f0 w t0 evs) = [] \<and> sink (Activate E s f0 w t0 evs) = w
     \<and> (\<forall>x r. consumer (Activate E s f0 w t0 evs) = CReturned x r \<longrightarrow>
          r = None
          \<and> ((x = TimedOut \<and> t0 + TimeOut s \<le> now (Activate E s f0 w t0 evs))
             \<or> ((x = CtxDone \<or> x = ChanClosed) \<and> ctxDone (Activate E s f0 w t0 evs))))"
    by (auto simp: quiet_def)
qed

theorem quiet_stream_witness:
  "sinkLog (Activate silent (cfg 3 1 9) 0 [] 0
              [ProdStart, Elapse 1, ProdTick, ConsRecv, Elapse 2, ProdTick, ConsRecv, ConsTimeout]) = []
   \<and> sink (Activate silent (cfg 3 1 9) 0 [] 0
              [ProdStart, Elapse 1, ProdTick, ConsRecv, Elapse 2, ProdTick, ConsRecv, ConsTimeout]) = []
   \<and> consumer (Activate silent (cfg 3 1 9) 0 [] 0
              [ProdStart, Elapse 1, ProdTick, ConsRecv, Elapse 2, ProdTick, ConsRecv, ConsTimeout])
       = CReturned TimedOut None
   \<and> length (polled (Activate silent (cfg 3 1 9) 0 [] 0
              [ProdStart, Elapse 1, ProdTick, ConsRecv, Elapse 2, ProdTick, ConsRecv, ConsTimeout])) = 2"
proof -
  let ?evs = "[ProdStart, Elapse 1, ProdTick, ConsRecv, Elapse 2, ProdTick, ConsRecv, ConsTimeout]"
  have h: "(\<forall>f. fst (snd (fst (fn silent f))) = False \<and> snd (snd (fst (fn silent f))) = None)
           \<and> \<not> tooMany (fst (atomic_AddInt32 (cfg 3 1 9) 1)) (cfg 3 1 9)"
    by (simp add: silent_def fnQuiet_def tooMany_def atomic_AddInt32_def cfg_def)
  have c: "consumer (Activate silent (cfg 3 1 9) 0 [] 0 ?evs) = CReturned TimedOut None"
    and n: "length (polled (Activate silent (cfg 3 1 9) 0 [] 0 ?evs)) = 2"
    by (simp_all add: eval_simps)
  note T = quiet_stream [of silent "cfg 3 1 9" 0 "[]" 0 ?evs, THEN mp, OF h]
  show ?thesis
    using T [THEN conjunct1] T [THEN conjunct2, THEN conjunct1] c n by simp
qed

text \<open>
  C10. In every run, a record with an error that the goroutine is sending has no
  payload; and when the consumer receives it, \<^verbatim>\<open>Activate\<close> returns that error and
  no call is made on the sink.
\<close>

theorem error_record:
  "(\<forall>resp fin. producer (Activate E s f0 w t0 evs) = PSend resp fin \<and> err resp \<noteq> None \<longrightarrow>
      data resp = None)
   \<and> (\<forall>d resp fin e. consumer (Activate E s f0 w t0 evs) = CSelect d
         \<and> producer (Activate E s f0 w t0 evs) = PSend resp fin \<and> err resp = Some e \<longrightarrow>
        consumer (step E ConsRecv (Activate E s f0 w t0 evs)) = CReturned RespErr (Some e)
        \<and> sinkLog (step E ConsRecv (Activate E s f0 w t0 evs)) = sinkLog (Activate E s f0 w t0 evs)
        \<and> sink (step E ConsRecv (Activate E s f0 w t0 evs)) = sink (Activate E s f0 w t0 evs))"
proof -
  let ?A = "Activate E s f0 w t0 evs"
  have f: "fifo ?A" unfolding Activate_def by (intro run_fifo start_fifo)
  have 1: "\<forall>resp fin. producer ?A = PSend resp fin \<and> err resp \<noteq> None \<longrightarrow> data resp = None"
    using f by (auto simp: fifo_def split: if_splits)
  have 2: "consumer (step E ConsRecv ?A) = CReturned RespErr (Some e)
        \<and> sinkLog (step E ConsRecv ?A) = sinkLog ?A \<and> sink (step E ConsRecv ?A) = sink ?A"
    if "consumer ?A = CSelect d \<and> producer ?A = PSend resp fin \<and> err resp = Some e" for d resp fin e
  proof -
    have c: "consumer ?A = CSelect d" and p: "producer ?A = PSend resp fin" and q: "err resp = Some e"
      using that by simp_all
    show ?thesis by (simp add: recv_error [OF c p q])
  qed
  show ?thesis using 1 2 by blast
qed

theorem error_record_witness:
  "producer (Activate failing (cfg 3 1 9) 0 [] 0 first_poll)
     = PSend \<lparr>data = None, err = Some (errors_Wrap (Foreign ''boom'') ''can't get stream data'')\<rparr> True
   \<and> consumer (step failing ConsRecv (Activate failing (cfg 3 1 9) 0 [] 0 first_poll))
     = CReturned RespErr (Some (errors_Wrap (Foreign ''boom'') ''can't get stream data''))
   \<and> sinkLog (step failing ConsRecv (Activate failing (cfg 3 1 9) 0 [] 0 first_poll)) = []
   \<and> sink (step failing ConsRecv (Activate failing (cfg 3 1 9) 0 [] 0 first_poll)) = []"
proof -
  let ?A = "Activate failing (cfg 3 1 9) 0 [] 0 first_poll"
  let ?e = "errors_Wrap (Foreign ''boom'') ''can't get stream data''"
  let ?r = "\<lparr>data = None, err = Some ?e\<rparr>"
  have p: "producer ?A = PSend ?r True" and l: "sinkLog ?A = []" "sink ?A = []"
    and c: "consumer ?A = CSelect 3"
    by (simp_all add: eval_simps)
  have h1: "producer ?A = PSend ?r True \<and> err ?r \<noteq> None" using p by simp
  have h2: "consumer ?A = CSelect 3 \<and> producer ?A = PSend ?r True \<and> err ?r = Some ?e"
    using p c by simp
  note T = error_record [of failing "cfg 3 1 9" 0 "[]" 0 first_poll]
  have "data ?r = None"
    by (rule T [THEN conjunct1, THEN spec, THEN spec, THEN mp, OF h1])
  then show ?thesis
    using T [THEN conjunct2, THEN spec, THEN spec, THEN spec, THEN spec, THEN mp, OF h2] p l by simp
qed

end
